theory Spec2Isabelle
  imports Main "HOL-Library.Char_ord" "HOL-Library.List_Lexorder" "HOL-Library.Multiset"
    "HOL-Library.Sublist"
begin

section \<open>The syntax tree handled by the generator\<close>

text \<open>
  The generator of \<^verbatim>\<open>gen/generator.go\<close> stores and emits values of Go's
  \<^verbatim>\<open>go/ast\<close> package. Only the shape that the generator inspects is modelled:
  a declaration is a \<^verbatim>\<open>GenDecl\<close> with its token and its specs, a \<^verbatim>\<open>FuncDecl\<close>
  or a \<^verbatim>\<open>BadDecl\<close>; the contents the generator never looks at are the type
  parameter \<open>'a\<close>.
\<close>

datatype token = IMPORT | CONST' | TYPE' | VAR

datatype 'a spec =
    ImportSpec "string option" string
  | ValueSpec 'a
  | TypeSpec string 'a

datatype 'a decl =
    BadDecl
  | GenDecl token "'a spec list"
  | FuncDecl 'a

record 'a File =
  Name :: string
  Decls :: "'a decl list"

section \<open>The importer\<close>

text \<open>
  Modelled from the spec: the importer embedded in \<^verbatim>\<open>Generator\<close>
  (\<^verbatim>\<open>newImporter\<close>, \<^verbatim>\<open>Import\<close>, \<^verbatim>\<open>addImportSpec\<close>, \<^verbatim>\<open>importDecl\<close>) is not
  part of \<^verbatim>\<open>gen/generator.go\<close>. The definitions of this section follow section 4.1
  of the specification (Import Resolver): one binding per distinct path, the default
  alias is the last path segment, an alias already claimed by another path gets an
  increasing numeric suffix, and the final block lists the bindings sorted by path.
\<close>

datatype origin = Programmatic | Literal

record ImportBinding =
  path :: string
  aliasName :: string
  origin :: origin

record importer =
  bindings :: "ImportBinding list"

text \<open>Modelled from the spec: a fresh importer has no binding.\<close>

definition newImporter :: importer where
  "newImporter = \<lparr>bindings = []\<rparr>"

text \<open>Modelled from the spec: the last segment of a path, its text after the last slash.\<close>

definition lastSegment :: "string \<Rightarrow> string" where
  "lastSegment p = rev (takeWhile (\<lambda>c. c \<noteq> CHR ''/'') (rev p))"

text \<open>Modelled from the spec: the decimal numeral of the numeric suffix.\<close>

definition digit :: "nat \<Rightarrow> char" where
  "digit n = char_of (48 + n)"

fun decimal :: "nat \<Rightarrow> string" where
  "decimal n = (if n < 10 then [digit n] else decimal (n div 10) @ [digit (n mod 10)])"

declare decimal.simps [simp del]

text \<open>
  Modelled from the spec: the search for the first free alias of the form
  \<open>base @ decimal n\<close>, counting upwards (``append an increasing numeric suffix'').
  The specification leaves the first suffix open; \<open>freshAlias\<close> below starts the
  search at 1. The search ends because only finitely many aliases are taken.
\<close>

function nextFree :: "string list \<Rightarrow> string \<Rightarrow> nat \<Rightarrow> string" where
  "nextFree taken base n =
     (if base @ decimal n \<in> set taken then nextFree taken base (Suc n)
      else base @ decimal n)"
  by pat_completeness auto

lemma digit_inj: "m < 10 \<Longrightarrow> n < 10 \<Longrightarrow> digit m = digit n \<Longrightarrow> m = n"
proof -
  assume m: "m < 10" and n: "n < 10" and eq: "digit m = digit n"
  have "of_char (digit m) = (48 + m) mod 256" "of_char (digit n) = (48 + n) mod 256"
    by (simp_all add: digit_def)
  with eq have "(48 + m) mod 256 = (48 + n) mod 256" by simp
  with m n show "m = n" by simp
qed

lemma decimal_not_Nil: "decimal n \<noteq> []"
  by (subst decimal.simps) simp

lemma decimal_inj: "decimal m = decimal n \<Longrightarrow> m = n"
proof (induction m arbitrary: n rule: decimal.induct)
  case (1 m)
  show ?case
  proof (cases "m < 10")
    case True
    show ?thesis
    proof (cases "n < 10")
      case True
      with \<open>m < 10\<close> "1.prems" show ?thesis
        by (simp add: decimal.simps [of m] decimal.simps [of n] digit_inj)
    next
      case False
      with \<open>m < 10\<close> "1.prems" have "[digit m] = decimal (n div 10) @ [digit (n mod 10)]"
        by (simp add: decimal.simps [of m] decimal.simps [of n])
      then show ?thesis using decimal_not_Nil [of "n div 10"] by simp
    qed
  next
    case False
    show ?thesis
    proof (cases "n < 10")
      case True
      with \<open>\<not> m < 10\<close> "1.prems" have "decimal (m div 10) @ [digit (m mod 10)] = [digit n]"
        by (simp add: decimal.simps [of m] decimal.simps [of n])
      then show ?thesis using decimal_not_Nil [of "m div 10"] by simp
    next
      case nge: False
      from False nge "1.prems"
      have eq: "decimal (m div 10) = decimal (n div 10)" "digit (m mod 10) = digit (n mod 10)"
        by (simp_all add: decimal.simps [of m] decimal.simps [of n])
      from "1.IH" [OF False eq(1)] have d: "m div 10 = n div 10" .
      from eq(2) have r: "m mod 10 = n mod 10" by (simp add: digit_inj)
      from d r show ?thesis by (metis div_mult_mod_eq)
    qed
  qed
qed

lemma finite_suffixes: "finite {k. base @ decimal k \<in> set taken}"
proof -
  have "inj (\<lambda>k. base @ decimal k)"
    by (rule injI) (simp add: decimal_inj)
  then have "finite ((\<lambda>k. base @ decimal k) -` set taken)"
    by (rule finite_vimageI [OF finite_set])
  then show ?thesis by (simp add: vimage_def)
qed

termination nextFree
proof (relation "measure (\<lambda>(taken, base, n). card {k. n \<le> k \<and> base @ decimal k \<in> set taken})")
  show "wf (measure (\<lambda>(taken, base, n). card {k. n \<le> k \<and> base @ decimal k \<in> set taken}))"
    by simp
next
  fix taken :: "string list" and base :: string and n :: nat
  assume hit: "base @ decimal n \<in> set taken"
  have fin: "finite {k. n \<le> k \<and> base @ decimal k \<in> set taken}"
    by (rule finite_subset [OF _ finite_suffixes [of base taken]]) auto
  have "{k. Suc n \<le> k \<and> base @ decimal k \<in> set taken}
          \<subset> {k. n \<le> k \<and> base @ decimal k \<in> set taken}"
  proof
    show "{k. Suc n \<le> k \<and> base @ decimal k \<in> set taken}
          \<subseteq> {k. n \<le> k \<and> base @ decimal k \<in> set taken}"
      by auto
    have "n \<in> {k. n \<le> k \<and> base @ decimal k \<in> set taken}"
      using hit by simp
    moreover have "n \<notin> {k. Suc n \<le> k \<and> base @ decimal k \<in> set taken}"
      by simp
    ultimately show "{k. Suc n \<le> k \<and> base @ decimal k \<in> set taken}
          \<noteq> {k. n \<le> k \<and> base @ decimal k \<in> set taken}"
      by metis
  qed
  then have "card {k. Suc n \<le> k \<and> base @ decimal k \<in> set taken}
          < card {k. n \<le> k \<and> base @ decimal k \<in> set taken}"
    by (rule psubset_card_mono [OF fin])
  then show "((taken, base, Suc n), (taken, base, n))
      \<in> measure (\<lambda>(taken, base, n). card {k. n \<le> k \<and> base @ decimal k \<in> set taken})"
    by simp
qed

declare nextFree.simps [simp del]

text \<open>
  Modelled from the spec: the binding of a path, if the path is registered, and the alias
  a new path gets: the requested one when no binding claims it, otherwise the first free
  suffixed one.
\<close>

definition lookupPath :: "importer \<Rightarrow> string \<Rightarrow> ImportBinding option" where
  "lookupPath i p = find (\<lambda>b. path b = p) (bindings i)"

definition freshAlias :: "importer \<Rightarrow> string \<Rightarrow> string" where
  "freshAlias i base =
     (let taken = map aliasName (bindings i)
      in if base \<in> set taken then nextFree taken base 1 else base)"

text \<open>
  Modelled from the spec: \<^verbatim>\<open>Import\<close> is the operation \<open>Request(path)\<close>. It returns
  the alias of the path and the importer, which has a new binding when the path was not
  registered before.
\<close>

definition Import :: "importer \<Rightarrow> string \<Rightarrow> string \<times> importer" where
  "Import i p =
     (case lookupPath i p of
        Some b \<Rightarrow> (aliasName b, i)
      | None \<Rightarrow>
          (let a = freshAlias i (lastSegment p)
           in (a, i\<lparr>bindings := bindings i @ [\<lparr>path = p, aliasName = a, origin = Programmatic\<rparr>]\<rparr>)))"

text \<open>
  Modelled from the spec: \<^verbatim>\<open>addImportSpec\<close> is the operation
  \<open>MergeLiteral(path, requestedAlias)\<close> on the name and the path of an
  \<^verbatim>\<open>ast.ImportSpec\<close>; an import written without a name requests the default alias.
  A path that is registered keeps its binding (``one binding exists per distinct path'').
\<close>

definition addImportSpec :: "importer \<Rightarrow> string option \<Rightarrow> string \<Rightarrow> importer" where
  "addImportSpec i name p =
     (case lookupPath i p of
        Some b \<Rightarrow> i
      | None \<Rightarrow>
          (let a = freshAlias i (case name of None \<Rightarrow> lastSegment p | Some n \<Rightarrow> n)
           in i\<lparr>bindings := bindings i @ [\<lparr>path = p, aliasName = a, origin = Literal\<rparr>]\<rparr>))"

text \<open>
  Modelled from the spec: \<^verbatim>\<open>importDecl\<close> is \<open>FinalBlock()\<close>: nothing when no path
  is registered, otherwise one import declaration with a spec for every binding, sorted
  by path.
\<close>

definition importSpecOf :: "ImportBinding \<Rightarrow> 'a spec" where
  "importSpecOf b = ImportSpec (Some (aliasName b)) (path b)"

definition importDecl :: "importer \<Rightarrow> 'a decl option" where
  "importDecl i =
     (if bindings i = [] then None
      else Some (GenDecl IMPORT (map importSpecOf (sort_key path (bindings i)))))"

section \<open>The libraries the generator calls\<close>

text \<open>
  \<^verbatim>\<open>text/template\<close>, \<^verbatim>\<open>go/parser\<close> and \<^verbatim>\<open>go/format\<close> are not code of this
  repository; the generator is modelled over any behaviour of theirs. Executing a
  template can reach the generator only through the function map of
  \<^verbatim>\<open>renderTemplate\<close>, whose one entry with an effect is \<^verbatim>\<open>import\<close>; all others
  (\<^verbatim>\<open>goCase\<close>, \<^verbatim>\<open>defName\<close>, \<^verbatim>\<open>typeReference\<close>, \<^verbatim>\<open>Required\<close>,
  \<^verbatim>\<open>Optional\<close>, \<^verbatim>\<open>required\<close>) are pure. An execution is therefore a tree: it
  ends with the text it wrote, or fails, or calls \<^verbatim>\<open>import\<close> with a path and goes
  on with the alias it gets back.
\<close>

datatype 'e exec =
    Done string
  | Fail 'e
  | CallImport string "string \<Rightarrow> 'e exec"

record ('t, 'd, 'e, 'fs, 'a) libs =
  templateParse :: "string \<Rightarrow> 'e + 't"
  templateExecute :: "'t \<Rightarrow> 'd \<Rightarrow> 'e exec"
  parseFile :: "string \<Rightarrow> 'e + 'a File"
  formatNode :: "'fs \<Rightarrow> 'a File \<Rightarrow> 'e + string"

datatype fieldRequired = Required | Optional

definition required :: "bool \<Rightarrow> fieldRequired" where
  "required b = (if b then Required else Optional)"

section \<open>The generator\<close>

record 'a Generator =
  importer :: importer
  decls :: "'a decl list"

definition NewGenerator :: "'a Generator" where
  "NewGenerator = \<lparr>importer = newImporter, decls = []\<rparr>"

text \<open>
  \<^verbatim>\<open>tmpl.Execute(buff, data)\<close> with \<^verbatim>\<open>"import": g.Import\<close> in the function map:
  every call of \<^verbatim>\<open>import\<close> goes to the importer at once, whatever happens later.
\<close>

primrec runExec :: "'e exec \<Rightarrow> importer \<Rightarrow> ('e + string) \<times> importer" where
  "runExec (Done out) = (\<lambda>i. (Inr out, i))"
| "runExec (Fail err) = (\<lambda>i. (Inl err, i))"
| "runExec (CallImport p k) = (\<lambda>i. case Import i p of (a, i') \<Rightarrow> runExec (k a) i')"

definition header :: string where
  "header = ''package thriftrw'' @ [CHR 0x0A, CHR 0x0A]"

definition renderTemplate ::
  "('t, 'd, 'e, 'fs, 'a) libs \<Rightarrow> string \<Rightarrow> 'd \<Rightarrow> 'a Generator \<Rightarrow> ('e + string) \<times> 'a Generator"
where
  "renderTemplate L s data g =
     (case templateParse L s of
        Inl err \<Rightarrow> (Inl err, g)
      | Inr tmpl \<Rightarrow>
          (case runExec (templateExecute L tmpl data) (importer g) of
             (Inl err, i) \<Rightarrow> (Inl err, g\<lparr>importer := i\<rparr>)
           | (Inr out, i) \<Rightarrow> (Inr (header @ out), g\<lparr>importer := i\<rparr>)))"

definition appendDecl :: "'a Generator \<Rightarrow> 'a decl \<Rightarrow> 'a Generator" where
  "appendDecl g decl = g\<lparr>decls := decls g @ [decl]\<rparr>"

text \<open>
  The inner loop of \<^verbatim>\<open>DeclareFromTemplate\<close> over \<^verbatim>\<open>d.Specs\<close>. The type assertion
  \<^verbatim>\<open>imp.(*ast.ImportSpec)\<close> panics on any other spec: that is \<open>None\<close>.
\<close>

fun addImportSpecs :: "importer \<Rightarrow> 'a spec list \<Rightarrow> importer option" where
  "addImportSpecs i [] = Some i"
| "addImportSpecs i (ImportSpec name p # imports) = addImportSpecs (addImportSpec i name p) imports"
| "addImportSpecs i (imp # imports) = None"

text \<open>The outer loop of \<^verbatim>\<open>DeclareFromTemplate\<close> over \<^verbatim>\<open>f.Decls\<close>.\<close>

fun declareDecls :: "'a Generator \<Rightarrow> 'a decl list \<Rightarrow> 'a Generator option" where
  "declareDecls g [] = Some g"
| "declareDecls g (GenDecl IMPORT imports # ds) =
     (case addImportSpecs (importer g) imports of
        None \<Rightarrow> None
      | Some i \<Rightarrow> declareDecls (g\<lparr>importer := i\<rparr>) ds)"
| "declareDecls g (decl # ds) = declareDecls (appendDecl g decl) ds"

text \<open>
  A call of \<^verbatim>\<open>DeclareFromTemplate\<close> returns an error or \<^verbatim>\<open>nil\<close> and leaves the
  generator in a state, or it panics.
\<close>

datatype ('e, 'g) outcome = Returns "'e option" 'g | Panics

definition DeclareFromTemplate ::
  "('t, 'd, 'e, 'fs, 'a) libs \<Rightarrow> string \<Rightarrow> 'd \<Rightarrow> 'a Generator \<Rightarrow> ('e, 'a Generator) outcome"
where
  "DeclareFromTemplate L s data g =
     (case renderTemplate L s data g of
        (Inl err, g1) \<Rightarrow> Returns (Some err) g1
      | (Inr bs, g1) \<Rightarrow>
          (case parseFile L bs of
             Inl err \<Rightarrow> Returns (Some err) g1
           | Inr f \<Rightarrow>
               (case declareDecls g1 (Decls f) of
                  None \<Rightarrow> Panics
                | Some g2 \<Rightarrow> Returns None g2)))"

text \<open>
  \<^verbatim>\<open>Write\<close>: the file handed to \<^verbatim>\<open>format.Node\<close>, and the call itself. The result
  is the error or the bytes written to \<^verbatim>\<open>w\<close>; the generator is returned as the call
  leaves it.
\<close>

definition outputFile :: "'a Generator \<Rightarrow> 'a File" where
  "outputFile g =
     \<lparr>Name = ''todo'',
      Decls = (case importDecl (importer g) of None \<Rightarrow> [] | Some d \<Rightarrow> [d]) @ decls g\<rparr>"

definition Write ::
  "('t, 'd, 'e, 'fs, 'a) libs \<Rightarrow> 'fs \<Rightarrow> 'a Generator \<Rightarrow> ('e + string) \<times> 'a Generator"
where
  "Write L fs g = (formatNode L fs (outputFile g), g)"

text \<open>
  A caller's run: the calls of \<^verbatim>\<open>DeclareFromTemplate\<close> in order, each on the state
  the one before left, with the list of what they returned.
\<close>

fun declareAll ::
  "('t, 'd, 'e, 'fs, 'a) libs \<Rightarrow> 'a Generator \<Rightarrow> (string \<times> 'd) list
     \<Rightarrow> ('e option list \<times> 'a Generator) option"
where
  "declareAll L g [] = Some ([], g)"
| "declareAll L g ((s, data) # calls) =
     (case DeclareFromTemplate L s data g of
        Panics \<Rightarrow> None
      | Returns r g1 \<Rightarrow>
          (case declareAll L g1 calls of
             None \<Rightarrow> None
           | Some (rs, g2) \<Rightarrow> Some (r # rs, g2)))"

text \<open>
  The invariant of the import table, and the test \<^verbatim>\<open>d.Tok == token.IMPORT\<close> of
  \<^verbatim>\<open>DeclareFromTemplate\<close> on a declaration.
\<close>

definition importerOK :: "importer \<Rightarrow> bool" where
  "importerOK i = (distinct (map path (bindings i)) \<and> distinct (map aliasName (bindings i)))"

fun isImportDecl :: "'a decl \<Rightarrow> bool" where
  "isImportDecl (GenDecl IMPORT imports) = True"
| "isImportDecl decl = False"

text \<open>
  The declarations a call contributes: the declarations of the file parsed from its
  rendered text that are no import declarations, and none when the call fails. For a run,
  the contributions call by call, each on the state the calls before it left.
\<close>

definition snippetDecls ::
  "('t, 'd, 'e, 'fs, 'a) libs \<Rightarrow> string \<Rightarrow> 'd \<Rightarrow> 'a Generator \<Rightarrow> 'a decl list"
where
  "snippetDecls L s data g =
     (case renderTemplate L s data g of
        (Inl err, g1) \<Rightarrow> []
      | (Inr bs, g1) \<Rightarrow>
          (case parseFile L bs of
             Inl err \<Rightarrow> []
           | Inr f \<Rightarrow> filter (\<lambda>d. \<not> isImportDecl d) (Decls f)))"

fun snippets ::
  "('t, 'd, 'e, 'fs, 'a) libs \<Rightarrow> 'a Generator \<Rightarrow> (string \<times> 'd) list \<Rightarrow> 'a decl list list"
where
  "snippets L g [] = []"
| "snippets L g ((s, data) # calls) =
     snippetDecls L s data g #
       (case DeclareFromTemplate L s data g of
          Panics \<Rightarrow> []
        | Returns r g1 \<Rightarrow> snippets L g1 calls)"

text \<open>
  The paths a run asks the importer for. \<open>importCalls\<close> lists the paths of the
  \<^verbatim>\<open>import\<close> calls of a template execution, \<open>literalPaths\<close> the paths of the
  import specs that the loop of \<^verbatim>\<open>DeclareFromTemplate\<close> hands to
  \<^verbatim>\<open>addImportSpec\<close>; \<open>callPaths\<close> lists both for one call and \<open>runPaths\<close> for a
  run.
\<close>

primrec importCalls :: "'e exec \<Rightarrow> importer \<Rightarrow> string list" where
  "importCalls (Done out) = (\<lambda>i. [])"
| "importCalls (Fail err) = (\<lambda>i. [])"
| "importCalls (CallImport p k) = (\<lambda>i. p # (case Import i p of (a, i') \<Rightarrow> importCalls (k a) i'))"

fun specPaths :: "'a spec list \<Rightarrow> string list" where
  "specPaths [] = []"
| "specPaths (ImportSpec name p # imports) = p # specPaths imports"
| "specPaths (imp # imports) = specPaths imports"

fun literalPaths :: "'a decl list \<Rightarrow> string list" where
  "literalPaths [] = []"
| "literalPaths (GenDecl IMPORT imports # ds) = specPaths imports @ literalPaths ds"
| "literalPaths (decl # ds) = literalPaths ds"

definition callPaths ::
  "('t, 'd, 'e, 'fs, 'a) libs \<Rightarrow> string \<Rightarrow> 'd \<Rightarrow> 'a Generator \<Rightarrow> string list"
where
  "callPaths L s data g =
     (case templateParse L s of
        Inl err \<Rightarrow> []
      | Inr tmpl \<Rightarrow>
          importCalls (templateExecute L tmpl data) (importer g)
          @ (case renderTemplate L s data g of
               (Inl err, g1) \<Rightarrow> []
             | (Inr bs, g1) \<Rightarrow>
                 (case parseFile L bs of
                    Inl err \<Rightarrow> []
                  | Inr f \<Rightarrow> literalPaths (Decls f))))"

fun runPaths ::
  "('t, 'd, 'e, 'fs, 'a) libs \<Rightarrow> 'a Generator \<Rightarrow> (string \<times> 'd) list \<Rightarrow> string list"
where
  "runPaths L g [] = []"
| "runPaths L g ((s, data) # calls) =
     callPaths L s data g
     @ (case DeclareFromTemplate L s data g of
          Panics \<Rightarrow> []
        | Returns r g1 \<Rightarrow> runPaths L g1 calls)"

text \<open>
  Modelled from the spec: the import table is a mapping from paths to bindings, and the
  order in which a mapping hands out its entries is not fixed from one run to the next.
  \<open>importDeclOf bs\<close> is \<open>FinalBlock()\<close> when the table hands out its bindings as the
  list \<open>bs\<close>, and \<open>WriteOf L fs bs g\<close> is what \<^verbatim>\<open>Write\<close> gives to its writer then;
  \<open>importDecl\<close> and \<open>Write\<close> are the case where \<open>bs\<close> is the list \<open>bindings\<close>.
\<close>

definition importDeclOf :: "ImportBinding list \<Rightarrow> 'a decl option" where
  "importDeclOf bs =
     (if bs = [] then None else Some (GenDecl IMPORT (map importSpecOf (sort_key path bs))))"

definition WriteOf ::
  "('t, 'd, 'e, 'fs, 'a) libs \<Rightarrow> 'fs \<Rightarrow> ImportBinding list \<Rightarrow> 'a Generator \<Rightarrow> 'e + string"
where
  "WriteOf L fs bs g =
     formatNode L fs
       \<lparr>Name = ''todo'',
        Decls = (case importDeclOf bs of None \<Rightarrow> [] | Some d \<Rightarrow> [d]) @ decls g\<rparr>"

section \<open>A small instance of the libraries\<close>

text \<open>
  The theorems below hold for every behaviour of the three libraries. To run the
  generator on concrete inputs, this section gives one small behaviour: templates made of
  text, field actions \<^verbatim>\<open>{{.Field}}\<close> and import actions \<^verbatim>\<open>{{import "path"}}\<close>
  over data that lists field values; source files of one-line declarations after a
  package clause; and a printer for them.
\<close>

datatype node = TextNode string | FieldNode string | ImportNode string

fun chunks :: "bool \<Rightarrow> string \<Rightarrow> string \<Rightarrow> (bool \<times> string) list option" where
  "chunks inAction acc [] = (if inAction then None else Some [(False, rev acc)])"
| "chunks inAction acc [c] = (if inAction then None else Some [(False, rev (c # acc))])"
| "chunks inAction acc (c # d # r) =
     (if \<not> inAction \<and> c = CHR ''{'' \<and> d = CHR ''{''
        then map_option ((#) (False, rev acc)) (chunks True [] r)
      else if inAction \<and> c = CHR ''}'' \<and> d = CHR ''}''
        then map_option ((#) (True, rev acc)) (chunks False [] r)
      else chunks inAction (c # acc) (d # r))"

definition trim :: "string \<Rightarrow> string" where
  "trim s = rev (dropWhile (\<lambda>c. c = CHR '' '') (rev (dropWhile (\<lambda>c. c = CHR '' '') s)))"

definition parseAction :: "string \<Rightarrow> node option" where
  "parseAction body =
     (let b = trim body in
      if take 1 b = ''.'' then Some (FieldNode (drop 1 b))
      else if take 8 b = ''import '' @ [CHR 0x22] \<and> 9 < length b \<and> drop (length b - 1) b = [CHR 0x22]
        then Some (ImportNode (take (length b - 9) (drop 8 b)))
      else None)"

fun parseChunks :: "(bool \<times> string) list \<Rightarrow> string + node list" where
  "parseChunks [] = Inr []"
| "parseChunks ((isAction, t) # cs) =
     (case (if isAction then parseAction t else Some (TextNode t)) of
        None \<Rightarrow> Inl (''template: thriftrw: bad action: '' @ t)
      | Some n \<Rightarrow> (case parseChunks cs of Inl err \<Rightarrow> Inl err | Inr ns \<Rightarrow> Inr (n # ns)))"

definition miniTemplateParse :: "string \<Rightarrow> string + node list" where
  "miniTemplateParse s =
     (case chunks False [] s of
        None \<Rightarrow> Inl ''template: thriftrw: unclosed action''
      | Some cs \<Rightarrow> parseChunks cs)"

fun execNodes :: "node list \<Rightarrow> (string \<times> string) list \<Rightarrow> string \<Rightarrow> string exec" where
  "execNodes [] data out = Done out"
| "execNodes (TextNode t # ns) data out = execNodes ns data (out @ t)"
| "execNodes (FieldNode f # ns) data out =
     (case map_of data f of
        None \<Rightarrow> Fail (''template: thriftrw: no field '' @ f)
      | Some v \<Rightarrow> execNodes ns data (out @ v))"
| "execNodes (ImportNode p # ns) data out = CallImport p (\<lambda>a. execNodes ns data (out @ a))"

definition miniTemplateExecute :: "node list \<Rightarrow> (string \<times> string) list \<Rightarrow> string exec" where
  "miniTemplateExecute tmpl data = execNodes tmpl data []"

fun splitOn :: "char \<Rightarrow> string \<Rightarrow> string \<Rightarrow> string list" where
  "splitOn sep acc [] = [rev acc]"
| "splitOn sep acc (c # r) = (if c = sep then rev acc # splitOn sep [] r else splitOn sep (c # acc) r)"

definition wordsOf :: "string \<Rightarrow> string list" where
  "wordsOf l = filter (\<lambda>w. w \<noteq> []) (splitOn (CHR '' '') [] l)"

definition unquote :: "string \<Rightarrow> string option" where
  "unquote w =
     (if 2 \<le> length w \<and> take 1 w = [CHR 0x22] \<and> drop (length w - 1) w = [CHR 0x22]
      then Some (take (length w - 2) (drop 1 w)) else None)"

definition syntaxError :: "string \<Rightarrow> string" where
  "syntaxError l = ''thriftrw.go: expected declaration, found '' @ l"

definition parseLine :: "string \<Rightarrow> string + string decl option" where
  "parseLine l =
     (case wordsOf l of
        [] \<Rightarrow> Inr None
      | kw # rest \<Rightarrow>
          if kw = ''import'' then
            (case rest of
               [p] \<Rightarrow> (case unquote p of None \<Rightarrow> Inl (syntaxError l)
                        | Some q \<Rightarrow> Inr (Some (GenDecl IMPORT [ImportSpec None q])))
             | [n, p] \<Rightarrow> (case unquote p of None \<Rightarrow> Inl (syntaxError l)
                        | Some q \<Rightarrow> Inr (Some (GenDecl IMPORT [ImportSpec (Some n) q])))
             | _ \<Rightarrow> Inl (syntaxError l))
          else if kw = ''type'' then
            (case rest of
               [n, t] \<Rightarrow> Inr (Some (GenDecl TYPE' [TypeSpec n t]))
             | _ \<Rightarrow> Inl (syntaxError l))
          else if kw = ''var'' \<and> rest \<noteq> [] then Inr (Some (GenDecl VAR [ValueSpec (drop 4 l)]))
          else if kw = ''const'' \<and> rest \<noteq> [] then Inr (Some (GenDecl CONST' [ValueSpec (drop 6 l)]))
          else if kw = ''func'' \<and> rest \<noteq> [] then Inr (Some (FuncDecl (drop 5 l)))
          else Inl (syntaxError l))"

fun parseLines :: "string list \<Rightarrow> string + string decl list" where
  "parseLines [] = Inr []"
| "parseLines (l # ls) =
     (case parseLine l of
        Inl err \<Rightarrow> Inl err
      | Inr d \<Rightarrow>
          (case parseLines ls of
             Inl err \<Rightarrow> Inl err
           | Inr ds \<Rightarrow> Inr (case d of None \<Rightarrow> ds | Some x \<Rightarrow> x # ds)))"

definition miniParseFile :: "string \<Rightarrow> string + string File" where
  "miniParseFile bs =
     (case splitOn (CHR 0x0A) [] bs of
        [] \<Rightarrow> Inl ''thriftrw.go: expected package''
      | l # ls \<Rightarrow>
          (case wordsOf l of
             [kw, name] \<Rightarrow>
               if kw = ''package'' then
                 (case parseLines ls of
                    Inl err \<Rightarrow> Inl err
                  | Inr ds \<Rightarrow> Inr \<lparr>Name = name, Decls = ds\<rparr>)
               else Inl ''thriftrw.go: expected package''
           | _ \<Rightarrow> Inl ''thriftrw.go: expected package''))"

fun showSpec :: "string spec \<Rightarrow> string" where
  "showSpec (ImportSpec None p) = [CHR 0x22] @ p @ [CHR 0x22]"
| "showSpec (ImportSpec (Some n) p) = n @ '' '' @ [CHR 0x22] @ p @ [CHR 0x22]"
| "showSpec (ValueSpec v) = v"
| "showSpec (TypeSpec n t) = n @ '' '' @ t"

fun showToken :: "token \<Rightarrow> string" where
  "showToken IMPORT = ''import''"
| "showToken CONST' = ''const''"
| "showToken TYPE' = ''type''"
| "showToken VAR = ''var''"

fun showDecl :: "string decl \<Rightarrow> string option" where
  "showDecl BadDecl = None"
| "showDecl (GenDecl tok [sp]) = Some (showToken tok @ '' '' @ showSpec sp @ [CHR 0x0A])"
| "showDecl (GenDecl tok sps) =
     Some (showToken tok @ '' ('' @ [CHR 0x0A]
           @ concat (map (\<lambda>sp. [CHR 0x09] @ showSpec sp @ [CHR 0x0A]) sps) @ '')'' @ [CHR 0x0A])"
| "showDecl (FuncDecl f) = Some (''func '' @ f @ [CHR 0x0A])"

fun showDecls :: "string decl list \<Rightarrow> string option" where
  "showDecls [] = Some []"
| "showDecls (d # ds) =
     (case showDecl d of
        None \<Rightarrow> None
      | Some t \<Rightarrow> (case showDecls ds of None \<Rightarrow> None | Some r \<Rightarrow> Some ([CHR 0x0A] @ t @ r)))"

definition miniFormatNode :: "unit \<Rightarrow> string File \<Rightarrow> string + string" where
  "miniFormatNode fs f =
     (case showDecls (Decls f) of
        None \<Rightarrow> Inl ''format.Node: bad declaration''
      | Some t \<Rightarrow> Inr (''package '' @ Name f @ [CHR 0x0A] @ t))"

definition miniLibs :: "(node list, (string \<times> string) list, string, unit, string) libs" where
  "miniLibs =
     \<lparr>templateParse = miniTemplateParse, templateExecute = miniTemplateExecute,
      parseFile = miniParseFile, formatNode = miniFormatNode\<rparr>"

text \<open>Templates, data and states used to run the generator on concrete inputs.\<close>


definition importAction :: "string \<Rightarrow> string" where
  "importAction p = ''{{import '' @ [CHR 0x22] @ p @ [CHR 0x22] @ ''}}''"

definition tmplFmtMissing :: string where
  "tmplFmtMissing = importAction ''fmt'' @ ''{{.Missing}}''"

definition tmplTwoUtils :: string where
  "tmplTwoUtils =
     ''var x = '' @ importAction ''a/util'' @ ''.X'' @ [CHR 0x0A]
     @ ''var y = '' @ importAction ''b/util'' @ ''.Y''"

definition tmplMyType :: string where
  "tmplMyType = ''type {{.Name}} int32''"

definition dataMyType :: "(string \<times> string) list" where
  "dataMyType = [(''Name'', ''myType'')]"

definition utilBindings :: "ImportBinding list" where
  "utilBindings =
     [\<lparr>path = ''a/util'', aliasName = ''util'', origin = Programmatic\<rparr>,
      \<lparr>path = ''b/util'', aliasName = ''util1'', origin = Programmatic\<rparr>]"

definition moreBindings :: "ImportBinding list" where
  "moreBindings = utilBindings @ [\<lparr>path = ''c/util'', aliasName = ''util2'', origin = Literal\<rparr>]"

definition utilDecls :: "string decl list" where
  "utilDecls = [GenDecl VAR [ValueSpec ''x = util.X''], GenDecl VAR [ValueSpec ''y = util1.Y'']]"

definition tmplLiteralUtil :: string where
  "tmplLiteralUtil =
     ''import util '' @ [CHR 0x22] @ ''c/util'' @ [CHR 0x22] @ [CHR 0x0A] @ tmplTwoUtils"

definition twoCalls :: "(string \<times> (string \<times> string) list) list" where
  "twoCalls = [(tmplTwoUtils, []), (tmplMyType, dataMyType)]"

definition myTypeDecl :: "string decl" where
  "myTypeDecl = GenDecl TYPE' [TypeSpec ''myType'' ''int32'']"

text \<open>
  A sequence of requests to the importer: \<open>Request\<close> is a call of \<^verbatim>\<open>Import\<close>,
  \<open>MergeLiteral\<close> a call of \<^verbatim>\<open>addImportSpec\<close> with the name and the path of a
  literal import.
\<close>

datatype importOp = Request string | MergeLiteral "string option" string

fun applyOp :: "importer \<Rightarrow> importOp \<Rightarrow> importer" where
  "applyOp i (Request p) = snd (Import i p)"
| "applyOp i (MergeLiteral name p) = addImportSpec i name p"

fun opPath :: "importOp \<Rightarrow> string" where
  "opPath (Request p) = p"
| "opPath (MergeLiteral name p) = p"

section \<open>The importer keeps paths and aliases distinct\<close>

lemma nextFree_free: "nextFree taken base n \<notin> set taken"
proof (induction taken base n rule: nextFree.induct)
  case (1 taken base n)
  then show ?case by (subst nextFree.simps) simp
qed

lemma freshAlias_free: "freshAlias i base \<notin> set (map aliasName (bindings i))"
  using nextFree_free [of "map aliasName (bindings i)" base 1]
  by (simp add: freshAlias_def Let_def)

lemma lookupPath_None: "lookupPath i p = None \<longleftrightarrow> p \<notin> set (map path (bindings i))"
  by (auto simp: lookupPath_def find_None_iff)

lemma lookupPath_Some: "lookupPath i p = Some b \<Longrightarrow> b \<in> set (bindings i) \<and> path b = p"
  by (auto simp: lookupPath_def find_Some_iff)

lemma find_append_list:
  "find P (xs @ ys) = (case find P xs of Some x \<Rightarrow> Some x | None \<Rightarrow> find P ys)"
  by (induction xs) simp_all

lemma lookupPath_append:
  "lookupPath (i\<lparr>bindings := bindings i @ bs\<rparr>) p =
     (case lookupPath i p of Some b \<Rightarrow> Some b | None \<Rightarrow> find (\<lambda>b. path b = p) bs)"
  by (induction "bindings i" arbitrary: i) (simp_all add: lookupPath_def find_append_list)

lemma Import_idem: "Import (snd (Import i p)) p = Import i p"
  by (cases "lookupPath i p") (simp_all add: Import_def Let_def lookupPath_append)

lemma Import_OK: "importerOK i \<Longrightarrow> importerOK (snd (Import i p))"
proof (cases "lookupPath i p")
  case None
  assume "importerOK i"
  moreover from None have "p \<notin> set (map path (bindings i))"
    using lookupPath_None [of i p] by blast
  ultimately show ?thesis
    using freshAlias_free [of i "lastSegment p"]
    by (simp add: Import_def None Let_def importerOK_def)
next
  case (Some b)
  assume "importerOK i"
  then show ?thesis by (simp add: Import_def Some)
qed

lemma addImportSpec_OK: "importerOK i \<Longrightarrow> importerOK (addImportSpec i name p)"
proof (cases "lookupPath i p")
  case None
  assume "importerOK i"
  moreover from None have "p \<notin> set (map path (bindings i))"
    using lookupPath_None [of i p] by blast
  ultimately show ?thesis
    using freshAlias_free [of i "case name of None \<Rightarrow> lastSegment p | Some n \<Rightarrow> n"]
    by (simp add: addImportSpec_def None Let_def importerOK_def)
next
  case (Some b)
  assume "importerOK i"
  then show ?thesis by (simp add: addImportSpec_def Some)
qed

lemma Import_prefix: "prefix (bindings i) (bindings (snd (Import i p)))"
  by (cases "lookupPath i p") (simp_all add: Import_def Let_def)

lemma addImportSpec_prefix: "prefix (bindings i) (bindings (addImportSpec i name p))"
  by (cases "lookupPath i p") (simp_all add: addImportSpec_def Let_def)

lemma runExec_OK: "importerOK i \<Longrightarrow> importerOK (snd (runExec x i))"
proof (induction x arbitrary: i)
  case (CallImport p k)
  then show ?case
    using Import_OK [of i p] by (cases "Import i p") (simp add: range_eqI)
qed simp_all

lemma runExec_prefix: "prefix (bindings i) (bindings (snd (runExec x i)))"
proof (induction x arbitrary: i)
  case (CallImport p k)
  obtain a i' where imp: "Import i p = (a, i')" by (cases "Import i p")
  have "prefix (bindings i) (bindings i')" using Import_prefix [of i p] imp by simp
  moreover have "prefix (bindings i') (bindings (snd (runExec (k a) i')))"
    by (rule CallImport.IH) (rule range_eqI, rule refl)
  ultimately show ?case using imp by (auto intro: prefix_order.trans)
qed simp_all

lemma addImportSpecs_OK: "importerOK i \<Longrightarrow> addImportSpecs i imports = Some i' \<Longrightarrow> importerOK i'"
  by (induction i "imports" rule: addImportSpecs.induct) (auto simp: addImportSpec_OK)

lemma addImportSpecs_prefix: "addImportSpecs i imports = Some i' \<Longrightarrow> prefix (bindings i) (bindings i')"
proof (induction i "imports" rule: addImportSpecs.induct)
  case (2 i name p "imports")
  then show ?case using addImportSpec_prefix [of i name p] by (auto intro: prefix_order.trans)
qed simp_all

lemma declareDecls_decls:
  "declareDecls g ds = Some g' \<Longrightarrow> decls g' = decls g @ filter (\<lambda>d. \<not> isImportDecl d) ds"
  by (induction g ds rule: declareDecls.induct) (auto simp: appendDecl_def split: option.splits)

lemma declareDecls_OK:
  "importerOK (importer g) \<Longrightarrow> declareDecls g ds = Some g' \<Longrightarrow> importerOK (importer g')"
  by (induction g ds rule: declareDecls.induct)
     (auto simp: appendDecl_def addImportSpecs_OK split: option.splits)

lemma declareDecls_prefix:
  "declareDecls g ds = Some g' \<Longrightarrow> prefix (bindings (importer g)) (bindings (importer g'))"
proof (induction g ds rule: declareDecls.induct)
  case (2 g "imports" ds)
  then show ?case
    by (auto split: option.splits dest!: addImportSpecs_prefix intro: prefix_order.trans)
qed (auto simp: appendDecl_def)


section \<open>What a call of DeclareFromTemplate does to the state\<close>

lemma renderTemplate_decls: "decls (snd (renderTemplate L s data g)) = decls g"
  by (simp add: renderTemplate_def split: sum.splits prod.splits)

lemma renderTemplate_prefix:
  "prefix (bindings (importer g)) (bindings (importer (snd (renderTemplate L s data g))))"
proof (cases "templateParse L s")
  case (Inl err)
  then show ?thesis by (simp add: renderTemplate_def)
next
  case (Inr tmpl)
  obtain res i where r: "runExec (templateExecute L tmpl data) (importer g) = (res, i)"
    by (cases "runExec (templateExecute L tmpl data) (importer g)")
  have "prefix (bindings (importer g)) (bindings i)"
    using runExec_prefix [of "importer g" "templateExecute L tmpl data"] r by simp
  then show ?thesis by (cases res) (simp_all add: renderTemplate_def Inr r)
qed

lemma renderTemplate_OK:
  "importerOK (importer g) \<Longrightarrow> importerOK (importer (snd (renderTemplate L s data g)))"
proof (cases "templateParse L s")
  case (Inl err)
  assume "importerOK (importer g)"
  then show ?thesis by (simp add: renderTemplate_def Inl)
next
  case (Inr tmpl)
  assume ok: "importerOK (importer g)"
  obtain res i where r: "runExec (templateExecute L tmpl data) (importer g) = (res, i)"
    by (cases "runExec (templateExecute L tmpl data) (importer g)")
  have "importerOK i"
    using runExec_OK [OF ok, of "templateExecute L tmpl data"] r by simp
  then show ?thesis by (cases res) (simp_all add: renderTemplate_def Inr r)
qed

lemma renderTemplate_parse_error:
  "templateParse L s = Inl err \<Longrightarrow> renderTemplate L s data g = (Inl err, g)"
  by (simp add: renderTemplate_def)

lemma DeclareFromTemplate_error:
  assumes "DeclareFromTemplate L s data g = Returns (Some err) g'"
  shows "g' = snd (renderTemplate L s data g)"
  using assms
  by (auto simp: DeclareFromTemplate_def split: sum.splits prod.splits option.splits)

lemma DeclareFromTemplate_decls:
  assumes "DeclareFromTemplate L s data g = Returns r g'"
  shows "decls g' = decls g @ snippetDecls L s data g"
proof (cases "renderTemplate L s data g")
  case (Pair res g1)
  have d1: "decls g1 = decls g" using renderTemplate_decls [of L s data g] Pair by simp
  show ?thesis
  proof (cases res)
    case (Inl err)
    with assms Pair d1 show ?thesis
      by (auto simp: DeclareFromTemplate_def snippetDecls_def)
  next
    case (Inr bs)
    show ?thesis
    proof (cases "parseFile L bs")
      case (Inl err)
      with assms Pair Inr d1 show ?thesis
        by (auto simp: DeclareFromTemplate_def snippetDecls_def)
    next
      case f: (Inr f)
      with assms Pair Inr obtain g2 where "declareDecls g1 (Decls f) = Some g2" "g' = g2"
        by (auto simp: DeclareFromTemplate_def split: option.splits)
      with declareDecls_decls [of g1 "Decls f" g2] d1 Pair Inr f show ?thesis
        by (simp add: snippetDecls_def)
    qed
  qed
qed

lemma DeclareFromTemplate_prefix:
  assumes "DeclareFromTemplate L s data g = Returns r g'"
  shows "prefix (bindings (importer g)) (bindings (importer g'))"
proof (cases "renderTemplate L s data g")
  case (Pair res g1)
  have p1: "prefix (bindings (importer g)) (bindings (importer g1))"
    using renderTemplate_prefix [of g L s data] Pair by simp
  from assms Pair have "g' = g1 \<or> (\<exists>ds. declareDecls g1 ds = Some g')"
    by (auto simp: DeclareFromTemplate_def split: sum.splits option.splits)
  then show ?thesis
  proof
    assume "g' = g1"
    with p1 show ?thesis by simp
  next
    assume "\<exists>ds. declareDecls g1 ds = Some g'"
    then obtain ds where "declareDecls g1 ds = Some g'" ..
    then have "prefix (bindings (importer g1)) (bindings (importer g'))"
      by (rule declareDecls_prefix)
    with p1 show ?thesis by (rule prefix_order.trans)
  qed
qed

lemma DeclareFromTemplate_OK:
  assumes "DeclareFromTemplate L s data g = Returns r g'" and "importerOK (importer g)"
  shows "importerOK (importer g')"
proof (cases "renderTemplate L s data g")
  case (Pair res g1)
  have p1: "importerOK (importer g1)"
    using renderTemplate_OK [of g L s data] assms(2) Pair by simp
  from assms Pair have "g' = g1 \<or> (\<exists>ds. declareDecls g1 ds = Some g')"
    by (auto simp: DeclareFromTemplate_def split: sum.splits option.splits)
  then show ?thesis
  proof
    assume "g' = g1"
    with p1 show ?thesis by simp
  next
    assume "\<exists>ds. declareDecls g1 ds = Some g'"
    then obtain ds where "declareDecls g1 ds = Some g'" ..
    with p1 show ?thesis by (rule declareDecls_OK)
  qed
qed

lemma declareAll_decls:
  "declareAll L g calls = Some (rs, g') \<Longrightarrow> decls g' = decls g @ concat (snippets L g calls)"
proof (induction calls arbitrary: g rs)
  case Nil
  then show ?case by simp
next
  case (Cons c calls)
  obtain s data where c: "c = (s, data)" by (cases c)
  from Cons.prems c have run: "declareAll L g ((s, data) # calls) = Some (rs, g')" by simp
  obtain r g1 where step: "DeclareFromTemplate L s data g = Returns r g1"
    using run by (cases "DeclareFromTemplate L s data g") simp_all
  obtain rs1 where rest: "declareAll L g1 calls = Some (rs1, g')"
    using run step by (cases "declareAll L g1 calls") auto
  from Cons.IH [OF rest] DeclareFromTemplate_decls [OF step] c step show ?case by simp
qed

lemma declareAll_OK:
  "declareAll L g calls = Some (rs, g') \<Longrightarrow> importerOK (importer g) \<Longrightarrow> importerOK (importer g')"
proof (induction calls arbitrary: g rs)
  case Nil
  then show ?case by simp
next
  case (Cons c calls)
  obtain s data where c: "c = (s, data)" by (cases c)
  from Cons.prems c have run: "declareAll L g ((s, data) # calls) = Some (rs, g')" by simp
  obtain r g1 where step: "DeclareFromTemplate L s data g = Returns r g1"
    using run by (cases "DeclareFromTemplate L s data g") simp_all
  obtain rs1 where rest: "declareAll L g1 calls = Some (rs1, g')"
    using run step by (cases "declareAll L g1 calls") auto
  from Cons.IH [OF rest] DeclareFromTemplate_OK [OF step] Cons.prems(2) show ?case by simp
qed

lemma filter_same_key:
  "distinct (map f zs) \<Longrightarrow> k \<in> set zs \<Longrightarrow> filter (\<lambda>x. f k = f x) zs = [k]"
proof (induction zs)
  case Nil
  then show ?case by simp
next
  case (Cons z zs)
  from Cons.prems(1) have nz: "f z \<notin> f ` set zs" and dz: "distinct (map f zs)" by simp_all
  show ?case
  proof (cases "k = z")
    case True
    have "filter (\<lambda>x. f z = f x) zs = []"
      unfolding filter_empty_conv using nz by (metis imageI)
    with True show ?thesis by simp
  next
    case False
    with Cons.prems(2) have kz: "k \<in> set zs" by simp
    then have "f k \<in> f ` set zs" by (rule imageI)
    with nz have ne: "f k \<noteq> f z" by metis
    from Cons.IH [OF dz kz] ne show ?thesis by simp
  qed
qed

lemma sort_key_perm:
  assumes "mset ys = mset xs" and "distinct (map f xs)"
  shows "sort_key f ys = sort_key f xs"
proof (rule properties_for_sort_key)
  show "mset (sort_key f xs) = mset ys" using assms(1) by simp
  show "sorted (map f (sort_key f xs))" by (rule sorted_sort_key)
  fix k assume k: "k \<in> set (sort_key f xs)"
  have "mset (map f ys) = mset (map f xs)" using assms(1) by simp
  from mset_eq_imp_distinct_iff [OF this] assms(2) have dy: "distinct (map f ys)" by simp
  have "mset (map f (sort_key f xs)) = mset (map f xs)" by simp
  from mset_eq_imp_distinct_iff [OF this] assms(2)
  have ds: "distinct (map f (sort_key f xs))" by simp
  from k have "k \<in> set xs" by simp
  then have ky: "k \<in> set ys" using mset_eq_setD [OF assms(1)] by simp
  have "filter (\<lambda>x. f k = f x) (sort_key f xs) = [k]" by (rule filter_same_key [OF ds k])
  moreover have "filter (\<lambda>x. f k = f x) ys = [k]" by (rule filter_same_key [OF dy ky])
  ultimately show "filter (\<lambda>x. f k = f x) (sort_key f xs) = filter (\<lambda>x. f k = f x) ys"
    by (rule trans [OF _ sym])
qed

section \<open>Sequences of requests to the importer\<close>

lemma newImporter_OK: "importerOK newImporter"
  by (simp add: importerOK_def newImporter_def)

lemma applyOp_OK: "importerOK i \<Longrightarrow> importerOK (applyOp i op)"
  by (cases op) (simp_all add: Import_OK addImportSpec_OK)

lemma applyOps_OK: "importerOK i \<Longrightarrow> importerOK (foldl applyOp i ops)"
  by (induction ops arbitrary: i) (simp_all add: applyOp_OK)

lemma applyOp_prefix: "prefix (bindings i) (bindings (applyOp i op))"
  by (cases op) (simp_all add: Import_prefix addImportSpec_prefix)

lemma applyOps_prefix: "prefix (bindings i) (bindings (foldl applyOp i ops))"
proof (induction ops arbitrary: i)
  case Nil
  show ?case by simp
next
  case (Cons op ops)
  have "prefix (bindings i) (bindings (applyOp i op))" by (rule applyOp_prefix)
  also have "prefix (bindings (applyOp i op)) (bindings (foldl applyOp (applyOp i op) ops))"
    by (rule Cons.IH)
  finally show ?case by simp
qed

lemma Import_registers: "p \<in> set (map path (bindings (snd (Import i p))))"
proof (cases "lookupPath i p")
  case None
  then show ?thesis by (simp add: Import_def Let_def)
next
  case (Some b)
  with lookupPath_Some [OF Some] show ?thesis by (auto simp: Import_def)
qed

lemma addImportSpec_registers: "p \<in> set (map path (bindings (addImportSpec i name p)))"
proof (cases "lookupPath i p")
  case None
  then show ?thesis by (simp add: addImportSpec_def Let_def)
next
  case (Some b)
  with lookupPath_Some [OF Some] show ?thesis by (auto simp: addImportSpec_def)
qed

lemma applyOp_registers: "opPath op \<in> set (map path (bindings (applyOp i op)))"
  by (cases op) (simp_all only: applyOp.simps opPath.simps Import_registers addImportSpec_registers)

lemma applyOps_registers: "set (map opPath ops) \<subseteq> set (map path (bindings (foldl applyOp i ops)))"
proof (induction ops arbitrary: i)
  case Nil
  show ?case by simp
next
  case (Cons op ops)
  have "opPath op \<in> set (map path (bindings (applyOp i op)))" by (rule applyOp_registers)
  moreover have "set (bindings (applyOp i op)) \<subseteq> set (bindings (foldl applyOp (applyOp i op) ops))"
    using applyOps_prefix [of "applyOp i op" ops] by (rule set_mono_prefix)
  ultimately have "opPath op \<in> set (map path (bindings (foldl applyOp (applyOp i op) ops)))"
    by auto
  with Cons.IH [of "applyOp i op"] show ?case by simp
qed

lemma find_distinct_key:
  "distinct (map f bs) \<Longrightarrow> b \<in> set bs \<Longrightarrow> find (\<lambda>x. f x = f b) bs = Some b"
proof (induction bs)
  case Nil
  then show ?case by simp
next
  case (Cons a bs)
  show ?case
  proof (cases "a = b")
    case True
    then show ?thesis by simp
  next
    case False
    with Cons.prems(2) have bin: "b \<in> set bs" by simp
    then have "f b \<in> f ` set bs" by (rule imageI)
    with Cons.prems(1) have "f a \<noteq> f b" by auto
    with Cons.IH bin Cons.prems(1) show ?thesis by simp
  qed
qed

lemma Import_registered:
  "importerOK i \<Longrightarrow> b \<in> set (bindings i) \<Longrightarrow> Import i (path b) = (aliasName b, i)"
  by (simp add: Import_def lookupPath_def importerOK_def find_distinct_key)

lemma importDecl_covers:
  assumes "b \<in> set (bindings i)"
  shows "importDecl i = Some (GenDecl IMPORT (map importSpecOf (sort_key path (bindings i))))
    \<and> importSpecOf b \<in> set (map importSpecOf (sort_key path (bindings i)))"
proof -
  from assms have "bindings i \<noteq> []" by auto
  then show ?thesis using assms by (simp add: importDecl_def)
qed

section \<open>The paths a run registers\<close>

lemma Import_paths:
  "set (map path (bindings (snd (Import i p)))) = insert p (set (map path (bindings i)))"
proof (cases "lookupPath i p")
  case None
  then show ?thesis by (simp add: Import_def Let_def)
next
  case (Some b)
  with lookupPath_Some [OF Some] show ?thesis by (auto simp: Import_def)
qed

lemma addImportSpec_paths:
  "set (map path (bindings (addImportSpec i name p))) = insert p (set (map path (bindings i)))"
proof (cases "lookupPath i p")
  case None
  then show ?thesis by (simp add: addImportSpec_def Let_def)
next
  case (Some b)
  with lookupPath_Some [OF Some] show ?thesis by (auto simp: addImportSpec_def)
qed

lemma runExec_paths:
  "set (map path (bindings (snd (runExec x i))))
     = set (map path (bindings i)) \<union> set (importCalls x i)"
proof (induction x arbitrary: i)
  case (CallImport p k)
  obtain a i' where imp: "Import i p = (a, i')" by (cases "Import i p")
  have "set (map path (bindings i')) = insert p (set (map path (bindings i)))"
    using Import_paths [of i p] imp by simp
  moreover have "set (map path (bindings (snd (runExec (k a) i'))))
      = set (map path (bindings i')) \<union> set (importCalls (k a) i')"
    by (rule CallImport.IH) (rule range_eqI, rule refl)
  ultimately show ?case using imp by auto
qed simp_all

lemma addImportSpecs_paths:
  "addImportSpecs i specs = Some i' \<Longrightarrow>
     set (map path (bindings i')) = set (map path (bindings i)) \<union> set (specPaths specs)"
proof (induction i specs rule: addImportSpecs.induct)
  case (2 i name p "imports")
  then show ?case using addImportSpec_paths [of i name p] by auto
qed simp_all

lemma declareDecls_paths:
  "declareDecls g ds = Some g' \<Longrightarrow>
     set (map path (bindings (importer g')))
       = set (map path (bindings (importer g))) \<union> set (literalPaths ds)"
proof (induction g ds rule: declareDecls.induct)
  case (1 g)
  then show ?case by simp
next
  case (2 g "imports" ds)
  from "2.prems" obtain i where
    a: "addImportSpecs (importer g) imports = Some i" and
    r: "declareDecls (g\<lparr>importer := i\<rparr>) ds = Some g'"
    by (cases "addImportSpecs (importer g) imports") simp_all
  from addImportSpecs_paths [OF a] "2.IH" [OF a r] show ?case by auto
qed (simp_all add: appendDecl_def)

lemma renderTemplate_state:
  "templateParse L s = Inr tmpl \<Longrightarrow>
     snd (renderTemplate L s data g)
       = g\<lparr>importer := snd (runExec (templateExecute L tmpl data) (importer g))\<rparr>"
  by (cases "runExec (templateExecute L tmpl data) (importer g)")
     (simp add: renderTemplate_def split: sum.splits)

lemma renderTemplate_paths:
  "templateParse L s = Inr tmpl \<Longrightarrow>
     set (map path (bindings (importer (snd (renderTemplate L s data g)))))
       = set (map path (bindings (importer g)))
         \<union> set (importCalls (templateExecute L tmpl data) (importer g))"
  using runExec_paths [of "templateExecute L tmpl data" "importer g"]
  by (simp add: renderTemplate_state)

lemma DeclareFromTemplate_paths:
  assumes "DeclareFromTemplate L s data g = Returns r g'"
  shows "set (map path (bindings (importer g')))
           = set (map path (bindings (importer g))) \<union> set (callPaths L s data g)"
proof (cases "templateParse L s")
  case (Inl err)
  then have "renderTemplate L s data g = (Inl err, g)" by (rule renderTemplate_parse_error)
  with assms have "g' = g" by (simp add: DeclareFromTemplate_def)
  with Inl show ?thesis by (simp add: callPaths_def)
next
  case (Inr tmpl)
  obtain res g1 where rt: "renderTemplate L s data g = (res, g1)"
    by (cases "renderTemplate L s data g")
  have p1: "set (map path (bindings (importer g1)))
      = set (map path (bindings (importer g)))
        \<union> set (importCalls (templateExecute L tmpl data) (importer g))"
    using renderTemplate_paths [OF Inr, of data g] rt by simp
  show ?thesis
  proof (cases res)
    case (Inl err)
    with assms rt have "g' = g1" by (simp add: DeclareFromTemplate_def)
    with p1 Inr rt Inl show ?thesis by (simp add: callPaths_def)
  next
    case bs: (Inr bs)
    show ?thesis
    proof (cases "parseFile L bs")
      case (Inl err)
      with assms rt bs have "g' = g1" by (simp add: DeclareFromTemplate_def)
      with p1 Inr rt bs Inl show ?thesis by (simp add: callPaths_def)
    next
      case f: (Inr f)
      with assms rt bs have "declareDecls g1 (Decls f) = Some g'"
        by (simp add: DeclareFromTemplate_def split: option.splits)
      from declareDecls_paths [OF this] p1 Inr rt bs f show ?thesis
        by (simp add: callPaths_def Un_assoc)
    qed
  qed
qed

lemma declareAll_paths:
  "declareAll L g calls = Some (rs, g') \<Longrightarrow>
     set (map path (bindings (importer g')))
       = set (map path (bindings (importer g))) \<union> set (runPaths L g calls)"
proof (induction calls arbitrary: g rs)
  case Nil
  then show ?case by simp
next
  case (Cons c calls)
  obtain s data where c: "c = (s, data)" by (cases c)
  from Cons.prems c have run: "declareAll L g ((s, data) # calls) = Some (rs, g')" by simp
  obtain r g1 where step: "DeclareFromTemplate L s data g = Returns r g1"
    using run by (cases "DeclareFromTemplate L s data g") simp_all
  obtain rs1 where rest: "declareAll L g1 calls = Some (rs1, g')"
    using run step by (cases "declareAll L g1 calls") auto
  from Cons.IH [OF rest] DeclareFromTemplate_paths [OF step] c step show ?case
    by (simp add: Un_assoc)
qed

lemma applyOp_paths:
  "set (map path (bindings (applyOp i op))) = insert (opPath op) (set (map path (bindings i)))"
  by (cases op) (simp_all only: applyOp.simps opPath.simps Import_paths addImportSpec_paths)

lemma applyOps_paths:
  "set (map path (bindings (foldl applyOp i ops)))
     = set (map path (bindings i)) \<union> set (map opPath ops)"
proof (induction ops arbitrary: i)
  case Nil
  show ?case by simp
next
  case (Cons op ops)
  from Cons.IH [of "applyOp i op"] applyOp_paths [of i op] show ?case by auto
qed

section \<open>The file that Write assembles\<close>

lemma NewGenerator_OK: "importerOK (importer NewGenerator)"
  by (simp add: NewGenerator_def newImporter_OK)

lemma importDeclOf_perm:
  assumes "mset bs = mset (bindings i)" and "importerOK i"
  shows "importDeclOf bs = importDecl i"
proof -
  from assms(2) have d: "distinct (map path (bindings i))" by (simp add: importerOK_def)
  from assms(1) have "bs = [] \<longleftrightarrow> bindings i = []"
    by (metis mset_zero_iff)
  moreover have "sort_key path bs = sort_key path (bindings i)"
    using assms(1) d by (rule sort_key_perm)
  ultimately show ?thesis by (simp add: importDecl_def importDeclOf_def)
qed

lemma snippetDecls_no_import: "filter (\<lambda>d. \<not> isImportDecl d) (snippetDecls L s data g) = snippetDecls L s data g"
  by (simp add: snippetDecls_def split: prod.splits sum.splits)

lemma snippets_no_import:
  "filter (\<lambda>d. \<not> isImportDecl d) (concat (snippets L g calls)) = concat (snippets L g calls)"
proof (induction calls arbitrary: g)
  case Nil
  show ?case by simp
next
  case (Cons c calls)
  obtain s data where c: "c = (s, data)" by (cases c)
  show ?case
    by (cases "DeclareFromTemplate L s data g") (simp_all add: c snippetDecls_no_import Cons.IH)
qed

lemma importDecl_isImport: "importDecl i = Some d \<Longrightarrow> isImportDecl d"
  by (auto simp: importDecl_def split: if_splits)

lemma DeclareFromTemplate_parse_error:
  assumes "renderTemplate L s data g = (Inr bs, g1)" and "parseFile L bs = Inl err"
  shows "DeclareFromTemplate L s data g = Returns (Some err) g1"
  using assms by (simp add: DeclareFromTemplate_def)

section \<open>The claims\<close>

text \<open>
  C1, as the code has it. When \<^verbatim>\<open>DeclareFromTemplate\<close> returns an error, the
  accumulated declarations are exactly those before the call, and every binding of the
  import table before the call is still there, unchanged and in place. When the template
  text itself does not parse, the whole state is unchanged. Otherwise the state is the
  one before the call with the import table that the \<^verbatim>\<open>import\<close> calls of the
  execution left: the paths registered after the call are those registered before it
  and those the template requested through \<^verbatim>\<open>import\<close> before the failure, and no
  others.
\<close>

theorem DeclareFromTemplate_failure:
  assumes "DeclareFromTemplate L s data g = Returns (Some err) g'"
  shows "decls g' = decls g
    \<and> prefix (bindings (importer g)) (bindings (importer g'))
    \<and> (\<forall>e. templateParse L s = Inl e \<longrightarrow> g' = g)
    \<and> (\<forall>tmpl. templateParse L s = Inr tmpl \<longrightarrow>
          g' = g\<lparr>importer := snd (runExec (templateExecute L tmpl data) (importer g))\<rparr>
          \<and> set (map path (bindings (importer g')))
              = set (map path (bindings (importer g)))
                \<union> set (importCalls (templateExecute L tmpl data) (importer g)))"
proof (intro conjI allI impI)
  note st = DeclareFromTemplate_error [OF assms]
  from st show "decls g' = decls g"
    by (simp add: renderTemplate_decls)
  from assms show "prefix (bindings (importer g)) (bindings (importer g'))"
    by (rule DeclareFromTemplate_prefix)
  {
    fix e assume "templateParse L s = Inl e"
    then have "renderTemplate L s data g = (Inl e, g)" by (rule renderTemplate_parse_error)
    with st show "g' = g" by simp
  }
  {
    fix tmpl assume p: "templateParse L s = Inr tmpl"
    from st renderTemplate_state [OF p]
    show "g' = g\<lparr>importer := snd (runExec (templateExecute L tmpl data) (importer g))\<rparr>"
      by simp
    from st renderTemplate_paths [OF p]
    show "set (map path (bindings (importer g')))
              = set (map path (bindings (importer g)))
                \<union> set (importCalls (templateExecute L tmpl data) (importer g))"
      by simp
  }
qed

text \<open>
  The theorem of C1 on a state with two bindings and two declarations: the call fails on
  the missing field after its \<^verbatim>\<open>import\<close> of \<^verbatim>\<open>fmt\<close>, the one path it
  requested.
\<close>

theorem DeclareFromTemplate_failure_witness:
  "DeclareFromTemplate miniLibs tmplFmtMissing dataMyType
       \<lparr>importer = \<lparr>bindings = utilBindings\<rparr>, decls = utilDecls\<rparr>
     = Returns (Some ''template: thriftrw: no field Missing'')
         \<lparr>importer = \<lparr>bindings = utilBindings
            @ [\<lparr>path = ''fmt'', aliasName = ''fmt'', origin = Programmatic\<rparr>]\<rparr>,
          decls = utilDecls\<rparr>
   \<and> templateParse miniLibs tmplFmtMissing = Inr [TextNode [], ImportNode ''fmt'', TextNode [], FieldNode ''Missing'', TextNode []]
   \<and> decls \<lparr>importer = \<lparr>bindings = utilBindings
            @ [\<lparr>path = ''fmt'', aliasName = ''fmt'', origin = Programmatic\<rparr>]\<rparr>,
          decls = utilDecls\<rparr> = utilDecls
   \<and> prefix utilBindings
        (utilBindings @ [\<lparr>path = ''fmt'', aliasName = ''fmt'', origin = Programmatic\<rparr>])
   \<and> set (map path (utilBindings @ [\<lparr>path = ''fmt'', aliasName = ''fmt'', origin = Programmatic\<rparr>]))
       = set (map path utilBindings)
         \<union> set (importCalls
             (templateExecute miniLibs
                [TextNode [], ImportNode ''fmt'', TextNode [], FieldNode ''Missing'', TextNode []] dataMyType)
             \<lparr>bindings = utilBindings\<rparr>)"
proof -
  have run: "DeclareFromTemplate miniLibs tmplFmtMissing dataMyType
       \<lparr>importer = \<lparr>bindings = utilBindings\<rparr>, decls = utilDecls\<rparr>
     = Returns (Some ''template: thriftrw: no field Missing'')
         \<lparr>importer = \<lparr>bindings = utilBindings
            @ [\<lparr>path = ''fmt'', aliasName = ''fmt'', origin = Programmatic\<rparr>]\<rparr>,
          decls = utilDecls\<rparr>"
    by code_simp
  have p: "templateParse miniLibs tmplFmtMissing
      = Inr [TextNode [], ImportNode ''fmt'', TextNode [], FieldNode ''Missing'', TextNode []]"
    by code_simp
  from DeclareFromTemplate_failure [OF run] run p show ?thesis by simp
qed

text \<open>
  C1 as stated fails: a template that requests \<^verbatim>\<open>fmt\<close> and then reads a field the
  data lacks returns an error and leaves a generator that is not the fresh one it
  started from, because the import table has the binding of \<^verbatim>\<open>fmt\<close>.
\<close>

theorem DeclareFromTemplate_failure_counterexample:
  "DeclareFromTemplate miniLibs tmplFmtMissing dataMyType NewGenerator
     = Returns (Some ''template: thriftrw: no field Missing'')
         \<lparr>importer = \<lparr>bindings = [\<lparr>path = ''fmt'', aliasName = ''fmt'', origin = Programmatic\<rparr>]\<rparr>,
          decls = []\<rparr>
   \<and> \<lparr>importer = \<lparr>bindings = [\<lparr>path = ''fmt'', aliasName = ''fmt'', origin = Programmatic\<rparr>]\<rparr>,
          decls = []\<rparr> \<noteq> (NewGenerator :: string Generator)"
proof
  show "DeclareFromTemplate miniLibs tmplFmtMissing dataMyType NewGenerator
     = Returns (Some ''template: thriftrw: no field Missing'')
         \<lparr>importer = \<lparr>bindings = [\<lparr>path = ''fmt'', aliasName = ''fmt'', origin = Programmatic\<rparr>]\<rparr>,
          decls = []\<rparr>"
    by code_simp
  show "\<lparr>importer = \<lparr>bindings = [\<lparr>path = ''fmt'', aliasName = ''fmt'', origin = Programmatic\<rparr>]\<rparr>,
          decls = []\<rparr> \<noteq> (NewGenerator :: string Generator)"
    by (simp add: NewGenerator_def newImporter_def)
qed

text \<open>
  C2. Two runs of the same sequence of calls on fresh generators return the same results,
  and \<^verbatim>\<open>Write\<close> gives the same bytes for both, in whatever order the import table
  of each run hands out its bindings: the paths of a run's table are distinct and the
  import declaration is sorted by path. These bytes are the ones of \<open>Write\<close>.
\<close>

theorem Write_deterministic:
  fixes L :: "('t, 'd, 'e, 'fs, 'a) libs"
  assumes "declareAll L NewGenerator calls = Some (rs1, g1)"
    and "declareAll L NewGenerator calls = Some (rs2, g2)"
    and "mset bs1 = mset (bindings (importer g1))"
    and "mset bs2 = mset (bindings (importer g2))"
  shows "rs1 = rs2 \<and> WriteOf L fs bs1 g1 = WriteOf L fs bs2 g2
    \<and> WriteOf L fs bs1 g1 = fst (Write L fs g1)"
proof -
  from assms(1,2) have same: "rs1 = rs2" "g1 = g2" by simp_all
  have ok: "importerOK (importer g1)"
    using declareAll_OK [OF assms(1)] by (simp add: NewGenerator_OK)
  from assms(3) ok have b1: "(importDeclOf bs1 :: 'a decl option) = importDecl (importer g1)"
    by (rule importDeclOf_perm)
  from assms(4) same ok have b2: "(importDeclOf bs2 :: 'a decl option) = importDecl (importer g1)"
    by (simp add: importDeclOf_perm)
  from same b1 b2 show ?thesis by (simp add: WriteOf_def Write_def outputFile_def)
qed

text \<open>
  The theorem of C2 on a run of two calls, with the bindings of its table handed out in
  the order of registration and in the reverse order.
\<close>

theorem Write_deterministic_witness:
  "declareAll miniLibs NewGenerator twoCalls
     = Some ([None, None], \<lparr>importer = \<lparr>bindings = utilBindings\<rparr>, decls = utilDecls @ [myTypeDecl]\<rparr>)
   \<and> mset (rev utilBindings) = mset utilBindings
   \<and> WriteOf miniLibs () (rev utilBindings)
        \<lparr>importer = \<lparr>bindings = utilBindings\<rparr>, decls = utilDecls @ [myTypeDecl]\<rparr>
     = WriteOf miniLibs () utilBindings
        \<lparr>importer = \<lparr>bindings = utilBindings\<rparr>, decls = utilDecls @ [myTypeDecl]\<rparr>"
proof -
  have run: "declareAll miniLibs NewGenerator twoCalls
     = Some ([None, None], \<lparr>importer = \<lparr>bindings = utilBindings\<rparr>, decls = utilDecls @ [myTypeDecl]\<rparr>)"
    by code_simp
  have m1: "mset (rev utilBindings)
      = mset (bindings (importer \<lparr>importer = \<lparr>bindings = utilBindings\<rparr>, decls = utilDecls @ [myTypeDecl]\<rparr>))"
    by simp
  have m2: "mset utilBindings
      = mset (bindings (importer \<lparr>importer = \<lparr>bindings = utilBindings\<rparr>, decls = utilDecls @ [myTypeDecl]\<rparr>))"
    by simp
  from Write_deterministic [OF run run m1 m2, of "()"] run show ?thesis by simp
qed

text \<open>
  C3. After a run of calls on a fresh generator, the accumulated declarations are the
  contributions of the calls, in the order of the calls and, within a call, in the order
  of the parsed snippet. The file that \<^verbatim>\<open>Write\<close> formats holds them in that order
  after the import declaration, and its declarations other than imports are exactly
  them.
\<close>

theorem declarations_in_call_order:
  fixes L :: "('t, 'd, 'e, 'fs, 'a) libs"
  assumes "declareAll L NewGenerator calls = Some (rs, g)"
  shows "decls g = concat (snippets L NewGenerator calls)
    \<and> fst (Write L fs g) = formatNode L fs
          \<lparr>Name = ''todo'',
           Decls = (case importDecl (importer g) of None \<Rightarrow> [] | Some d \<Rightarrow> [d])
                   @ concat (snippets L NewGenerator calls)\<rparr>
    \<and> filter (\<lambda>d. \<not> isImportDecl d) (Decls (outputFile g)) = concat (snippets L NewGenerator calls)"
proof -
  from declareAll_decls [OF assms] have d: "decls g = concat (snippets L NewGenerator calls)"
    by (simp add: NewGenerator_def)
  have "filter (\<lambda>d. \<not> isImportDecl d) (case importDecl (importer g) of None \<Rightarrow> [] | Some d \<Rightarrow> [d]) = []"
    by (cases "importDecl (importer g) :: 'a decl option") (simp_all add: importDecl_isImport)
  with d snippets_no_import [of L NewGenerator calls] show ?thesis
    by (simp add: Write_def outputFile_def)
qed

text \<open>The theorem of C3 on a run of two calls that contribute three declarations.\<close>

theorem declarations_in_call_order_witness:
  "declareAll miniLibs NewGenerator twoCalls
     = Some ([None, None], \<lparr>importer = \<lparr>bindings = utilBindings\<rparr>, decls = utilDecls @ [myTypeDecl]\<rparr>)
   \<and> concat (snippets miniLibs NewGenerator twoCalls) = utilDecls @ [myTypeDecl]"
proof -
  have run: "declareAll miniLibs NewGenerator twoCalls
     = Some ([None, None], \<lparr>importer = \<lparr>bindings = utilBindings\<rparr>, decls = utilDecls @ [myTypeDecl]\<rparr>)"
    by code_simp
  from declarations_in_call_order [OF run, of "()"] run show ?thesis by simp
qed

text \<open>
  C4. \<^verbatim>\<open>Write\<close> formats the file named \<^verbatim>\<open>todo\<close> whose declarations are the import
  declaration, when the import table has a binding, followed by the accumulated
  declarations in order, and just the accumulated declarations when the table is empty.
  The table of a fresh generator is empty, and it is not empty after a request or after
  a literal import was merged.
\<close>

theorem Write_layout:
  "fst (Write L fs g) = formatNode L fs
      \<lparr>Name = ''todo'',
       Decls = (if bindings (importer g) = [] then decls g
                else GenDecl IMPORT (map importSpecOf (sort_key path (bindings (importer g)))) # decls g)\<rparr>
   \<and> bindings (importer NewGenerator) = []
   \<and> bindings (snd (Import i p)) \<noteq> []
   \<and> bindings (addImportSpec i name p) \<noteq> []"
proof (intro conjI)
  show "fst (Write L fs g) = formatNode L fs
      \<lparr>Name = ''todo'',
       Decls = (if bindings (importer g) = [] then decls g
                else GenDecl IMPORT (map importSpecOf (sort_key path (bindings (importer g)))) # decls g)\<rparr>"
    by (simp add: Write_def outputFile_def importDecl_def)
  show "bindings (importer NewGenerator) = []"
    by (simp add: NewGenerator_def newImporter_def)
  show "bindings (snd (Import i p)) \<noteq> []"
    using Import_registers [of p i] by auto
  show "bindings (addImportSpec i name p) \<noteq> []"
    using addImportSpec_registers [of p i name] by auto
qed

text \<open>
  C5. Calling \<^verbatim>\<open>Import\<close> a second time with the same path, on the importer the
  first call left, returns the alias of the first call and leaves the importer as it is:
  no binding is added.
\<close>

theorem Import_twice:
  "Import (snd (Import i p)) p = (fst (Import i p), snd (Import i p))"
  by (simp add: Import_idem)

text \<open>
  C6. After any run of \<^verbatim>\<open>DeclareFromTemplate\<close> calls on a fresh generator, followed
  by any sequence of requests and literal imports, the paths of the import table are
  exactly the paths that the templates of the run requested through \<^verbatim>\<open>import\<close>, the
  paths of the literal imports in the rendered snippets of the run, and the paths of the
  requests that followed. The aliases of the table are pairwise distinct and so are its
  paths; \<^verbatim>\<open>Import\<close> returns for every registered path the alias of its binding, so
  two distinct paths get two distinct aliases; and the final import declaration has a
  spec with the path and the alias of every binding.
\<close>

theorem alias_uniqueness:
  assumes "declareAll L NewGenerator calls = Some (rs, g)"
    and "i = foldl applyOp (importer g) ops"
  shows "distinct (map aliasName (bindings i)) \<and> distinct (map path (bindings i))
    \<and> set (map opPath ops) \<subseteq> set (map path (bindings i))
    \<and> (\<forall>b\<in>set (bindings i). \<forall>c\<in>set (bindings i).
          fst (Import i (path b)) = aliasName b
          \<and> (path b \<noteq> path c \<longrightarrow> fst (Import i (path b)) \<noteq> fst (Import i (path c))))
    \<and> (\<forall>b\<in>set (bindings i). \<exists>specs.
          importDecl i = Some (GenDecl IMPORT specs :: 'z decl)
          \<and> ImportSpec (Some (aliasName b)) (path b) \<in> set specs)
    \<and> set (map path (bindings i))
        = set (runPaths L NewGenerator calls) \<union> set (map opPath ops)"
proof -
  have "importerOK (importer g)"
    using declareAll_OK [OF assms(1)] by (simp add: NewGenerator_def newImporter_OK)
  then have ok: "importerOK i" unfolding assms(2) by (rule applyOps_OK)
  then have d: "distinct (map aliasName (bindings i))" "distinct (map path (bindings i))"
    by (simp_all add: importerOK_def)
  have reg: "set (map opPath ops) \<subseteq> set (map path (bindings i))"
    unfolding assms(2) by (rule applyOps_registers)
  have al: "fst (Import i (path b)) = aliasName b
      \<and> (path b \<noteq> path c \<longrightarrow> fst (Import i (path b)) \<noteq> fst (Import i (path c)))"
    if b: "b \<in> set (bindings i)" and c: "c \<in> set (bindings i)" for b c
  proof -
    have ib: "fst (Import i (path b)) = aliasName b" using Import_registered [OF ok b] by simp
    have ic: "fst (Import i (path c)) = aliasName c" using Import_registered [OF ok c] by simp
    have "aliasName b \<noteq> aliasName c" if "path b \<noteq> path c"
    proof -
      from that have "b \<noteq> c" by auto
      with d(1) b c show ?thesis by (auto simp: distinct_map inj_on_def)
    qed
    with ib ic show ?thesis by simp
  qed
  have cov: "\<exists>specs. importDecl i = Some (GenDecl IMPORT specs :: 'z decl)
          \<and> ImportSpec (Some (aliasName b)) (path b) \<in> set specs"
    if b: "b \<in> set (bindings i)" for b
    using importDecl_covers [OF b] unfolding importSpecOf_def by blast
  have "set (map path (bindings (importer g))) = set (runPaths L NewGenerator calls)"
    using declareAll_paths [OF assms(1)] by (simp add: NewGenerator_def newImporter_def)
  then have all: "set (map path (bindings i))
        = set (runPaths L NewGenerator calls) \<union> set (map opPath ops)"
    unfolding assms(2) by (simp only: applyOps_paths)
  from d reg al cov all show ?thesis by blast
qed

text \<open>
  The theorem of C6 on three paths with the same last segment: two requested by the
  template of a call, one written in the same template as a literal import that asks
  for the alias \<^verbatim>\<open>util\<close> and is merged by the loop of \<^verbatim>\<open>DeclareFromTemplate\<close>.
\<close>

theorem alias_uniqueness_witness:
  "declareAll miniLibs NewGenerator [(tmplLiteralUtil, [])]
     = Some ([None], \<lparr>importer = \<lparr>bindings = moreBindings\<rparr>, decls = utilDecls\<rparr>)
   \<and> runPaths miniLibs NewGenerator [(tmplLiteralUtil, [])] = [''a/util'', ''b/util'', ''c/util'']
   \<and> foldl applyOp \<lparr>bindings = moreBindings\<rparr> [Request ''a/util''] = \<lparr>bindings = moreBindings\<rparr>
   \<and> distinct (map aliasName moreBindings)
   \<and> set (map path moreBindings) = {''a/util'', ''b/util'', ''c/util''}
   \<and> fst (Import \<lparr>bindings = moreBindings\<rparr> ''a/util'')
       \<noteq> fst (Import \<lparr>bindings = moreBindings\<rparr> ''c/util'')"
proof -
  have run: "declareAll miniLibs NewGenerator [(tmplLiteralUtil, [])]
     = Some ([None], \<lparr>importer = \<lparr>bindings = moreBindings\<rparr>, decls = utilDecls\<rparr>)"
    by code_simp
  have rp: "runPaths miniLibs NewGenerator [(tmplLiteralUtil, [])] = [''a/util'', ''b/util'', ''c/util'']"
    by code_simp
  have ops: "foldl applyOp \<lparr>bindings = moreBindings\<rparr> [Request ''a/util''] = \<lparr>bindings = moreBindings\<rparr>"
    by code_simp
  then have ops': "\<lparr>bindings = moreBindings\<rparr>
     = foldl applyOp (importer \<lparr>importer = \<lparr>bindings = moreBindings\<rparr>, decls = utilDecls\<rparr>)
         [Request ''a/util'']"
    by simp
  note u = alias_uniqueness [OF run ops']
  from u have d: "distinct (map aliasName (bindings \<lparr>bindings = moreBindings\<rparr>))"
    by (rule conjunct1)
  from u have q: "\<forall>b\<in>set (bindings \<lparr>bindings = moreBindings\<rparr>).
      \<forall>c\<in>set (bindings \<lparr>bindings = moreBindings\<rparr>).
        fst (Import \<lparr>bindings = moreBindings\<rparr> (path b)) = aliasName b
        \<and> (path b \<noteq> path c \<longrightarrow>
            fst (Import \<lparr>bindings = moreBindings\<rparr> (path b))
              \<noteq> fst (Import \<lparr>bindings = moreBindings\<rparr> (path c)))"
    by blast
  from u have ps: "set (map path (bindings \<lparr>bindings = moreBindings\<rparr>))
      = set (runPaths miniLibs NewGenerator [(tmplLiteralUtil, [])]) \<union> set (map opPath [Request ''a/util''])"
    by blast
  have a: "\<lparr>path = ''a/util'', aliasName = ''util'', origin = Programmatic\<rparr>
      \<in> set (bindings \<lparr>bindings = moreBindings\<rparr>)"
    by (simp add: moreBindings_def utilBindings_def)
  have c: "\<lparr>path = ''c/util'', aliasName = ''util2'', origin = Literal\<rparr>
      \<in> set (bindings \<lparr>bindings = moreBindings\<rparr>)"
    by (simp add: moreBindings_def utilBindings_def)
  from q a c have ne: "fst (Import \<lparr>bindings = moreBindings\<rparr> ''a/util'')
       \<noteq> fst (Import \<lparr>bindings = moreBindings\<rparr> ''c/util'')"
    by fastforce
  from ps have "set (map path (bindings \<lparr>bindings = moreBindings\<rparr>))
      = set [''a/util'', ''b/util'', ''c/util''] \<union> set (map opPath [Request ''a/util''])"
    unfolding rp .
  then have "set (map path moreBindings) = {''a/util'', ''b/util'', ''c/util''}"
    by auto
  with run rp ops d ne show ?thesis by simp
qed

text \<open>
  C8. \<^verbatim>\<open>Write\<close> leaves the generator as it is, so a second \<^verbatim>\<open>Write\<close> gives what
  the first gave. A successful \<^verbatim>\<open>DeclareFromTemplate\<close> after a \<^verbatim>\<open>Write\<close> appends
  its declarations to those accumulated before, and the next \<^verbatim>\<open>Write\<close> formats the
  longer sequence.
\<close>

theorem Write_idempotent:
  "snd (Write L fs g) = g
   \<and> Write L fs (snd (Write L fs g)) = Write L fs g
   \<and> (DeclareFromTemplate L s data (snd (Write L fs g)) = Returns None g' \<longrightarrow>
        decls g' = decls g @ snippetDecls L s data g
        \<and> fst (Write L fs g') = formatNode L fs
             \<lparr>Name = ''todo'',
              Decls = (case importDecl (importer g') of None \<Rightarrow> [] | Some d \<Rightarrow> [d])
                      @ decls g @ snippetDecls L s data g\<rparr>)"
proof (intro conjI impI)
  show w: "snd (Write L fs g) = g" by (simp add: Write_def)
  then show "Write L fs (snd (Write L fs g)) = Write L fs g" by simp
  assume "DeclareFromTemplate L s data (snd (Write L fs g)) = Returns None g'"
  with w have "DeclareFromTemplate L s data g = Returns None g'" by simp
  then show d: "decls g' = decls g @ snippetDecls L s data g"
    by (rule DeclareFromTemplate_decls)
  then show "fst (Write L fs g') = formatNode L fs
             \<lparr>Name = ''todo'',
              Decls = (case importDecl (importer g') of None \<Rightarrow> [] | Some d \<Rightarrow> [d])
                      @ decls g @ snippetDecls L s data g\<rparr>"
    by (simp add: Write_def outputFile_def)
qed

text \<open>The theorem of C8 on a state with two declarations and a call that adds a third.\<close>

theorem Write_idempotent_witness:
  "DeclareFromTemplate miniLibs tmplMyType dataMyType
       (snd (Write miniLibs () \<lparr>importer = \<lparr>bindings = utilBindings\<rparr>, decls = utilDecls\<rparr>))
     = Returns None \<lparr>importer = \<lparr>bindings = utilBindings\<rparr>, decls = utilDecls @ [myTypeDecl]\<rparr>
   \<and> utilDecls @ [myTypeDecl]
     = utilDecls @ snippetDecls miniLibs tmplMyType dataMyType
         \<lparr>importer = \<lparr>bindings = utilBindings\<rparr>, decls = utilDecls\<rparr>"
proof -
  have run: "DeclareFromTemplate miniLibs tmplMyType dataMyType
       (snd (Write miniLibs () \<lparr>importer = \<lparr>bindings = utilBindings\<rparr>, decls = utilDecls\<rparr>))
     = Returns None \<lparr>importer = \<lparr>bindings = utilBindings\<rparr>, decls = utilDecls @ [myTypeDecl]\<rparr>"
    by code_simp
  from Write_idempotent [of miniLibs "()" "\<lparr>importer = \<lparr>bindings = utilBindings\<rparr>, decls = utilDecls\<rparr>"
      tmplMyType dataMyType "\<lparr>importer = \<lparr>bindings = utilBindings\<rparr>, decls = utilDecls @ [myTypeDecl]\<rparr>"] run
  show ?thesis by simp
qed

text \<open>
  C9. On a fresh generator, when the template \<^verbatim>\<open>type {{.Name}} int32\<close> parses, its
  execution on the data writes \<^verbatim>\<open>type myType int32\<close>, and the parser reads the
  rendered text as the one type declaration of \<^verbatim>\<open>myType\<close> with the type
  \<^verbatim>\<open>int32\<close>, then \<^verbatim>\<open>DeclareFromTemplate\<close> succeeds and \<^verbatim>\<open>Write\<close> formats a file
  whose only declaration is that type declaration.
\<close>

theorem round_trip:
  assumes "templateParse L ''type {{.Name}} int32'' = Inr tmpl"
    and "templateExecute L tmpl data = Done ''type myType int32''"
    and "parseFile L (''package thriftrw'' @ [CHR 0x0A, CHR 0x0A] @ ''type myType int32'')
           = Inr \<lparr>Name = ''thriftrw'', Decls = [GenDecl TYPE' [TypeSpec ''myType'' int32]]\<rparr>"
  shows "DeclareFromTemplate L ''type {{.Name}} int32'' data NewGenerator
           = Returns None \<lparr>importer = newImporter, decls = [GenDecl TYPE' [TypeSpec ''myType'' int32]]\<rparr>
    \<and> fst (Write L fs \<lparr>importer = newImporter, decls = [GenDecl TYPE' [TypeSpec ''myType'' int32]]\<rparr>)
           = formatNode L fs \<lparr>Name = ''todo'', Decls = [GenDecl TYPE' [TypeSpec ''myType'' int32]]\<rparr>"
proof
  have r: "renderTemplate L ''type {{.Name}} int32'' data NewGenerator
      = (Inr (''package thriftrw'' @ [CHR 0x0A, CHR 0x0A] @ ''type myType int32''), NewGenerator)"
    using assms(1,2) by (simp add: renderTemplate_def header_def NewGenerator_def)
  show "DeclareFromTemplate L ''type {{.Name}} int32'' data NewGenerator
           = Returns None \<lparr>importer = newImporter, decls = [GenDecl TYPE' [TypeSpec ''myType'' int32]]\<rparr>"
    unfolding DeclareFromTemplate_def r using assms(3)
    by (simp add: NewGenerator_def appendDecl_def)
  show "fst (Write L fs \<lparr>importer = newImporter, decls = [GenDecl TYPE' [TypeSpec ''myType'' int32]]\<rparr>)
           = formatNode L fs \<lparr>Name = ''todo'', Decls = [GenDecl TYPE' [TypeSpec ''myType'' int32]]\<rparr>"
    by (simp add: Write_def outputFile_def importDecl_def newImporter_def)
qed

text \<open>
  The theorem of C9 on the small instance of the libraries, with the bytes its printer
  gives.
\<close>

theorem round_trip_witness:
  "DeclareFromTemplate miniLibs ''type {{.Name}} int32'' dataMyType NewGenerator
     = Returns None \<lparr>importer = newImporter, decls = [GenDecl TYPE' [TypeSpec ''myType'' ''int32'']]\<rparr>
   \<and> fst (Write miniLibs () \<lparr>importer = newImporter, decls = [GenDecl TYPE' [TypeSpec ''myType'' ''int32'']]\<rparr>)
     = Inr (''package todo'' @ [CHR 0x0A, CHR 0x0A] @ ''type myType int32'' @ [CHR 0x0A])"
proof -
  have p: "templateParse miniLibs ''type {{.Name}} int32''
      = Inr [TextNode ''type '', FieldNode ''Name'', TextNode '' int32'']"
    by code_simp
  have e: "templateExecute miniLibs [TextNode ''type '', FieldNode ''Name'', TextNode '' int32''] dataMyType
      = Done ''type myType int32''"
    by (simp add: miniLibs_def miniTemplateExecute_def dataMyType_def)
  have f: "parseFile miniLibs (''package thriftrw'' @ [CHR 0x0A, CHR 0x0A] @ ''type myType int32'')
      = Inr \<lparr>Name = ''thriftrw'', Decls = [GenDecl TYPE' [TypeSpec ''myType'' ''int32'']]\<rparr>"
    by code_simp
  have w: "formatNode miniLibs () \<lparr>Name = ''todo'', Decls = [GenDecl TYPE' [TypeSpec ''myType'' ''int32'']]\<rparr>
      = Inr (''package todo'' @ [CHR 0x0A, CHR 0x0A] @ ''type myType int32'' @ [CHR 0x0A])"
    by code_simp
  from round_trip [OF p e f, of "()"] w show ?thesis by simp
qed

text \<open>
  C10. The header that \<^verbatim>\<open>renderTemplate\<close> puts before the text of every template is
  the constant \<^verbatim>\<open>package thriftrw\<close> with two newlines: whatever the template and the
  data, the rendered text is the header followed by what the execution wrote, and that
  is the text \<^verbatim>\<open>DeclareFromTemplate\<close> parses. The file that \<^verbatim>\<open>Write\<close> formats has
  the name \<^verbatim>\<open>todo\<close>, whatever the state.
\<close>

theorem fixed_package_names:
  "header = ''package thriftrw'' @ [CHR 0x0A, CHR 0x0A]
   \<and> (templateParse L s = Inr tmpl
        \<and> runExec (templateExecute L tmpl data) (importer g) = (Inr out, i) \<longrightarrow>
        renderTemplate L s data g
          = (Inr (''package thriftrw'' @ [CHR 0x0A, CHR 0x0A] @ out), g\<lparr>importer := i\<rparr>)
        \<and> DeclareFromTemplate L s data g
          = (case parseFile L (''package thriftrw'' @ [CHR 0x0A, CHR 0x0A] @ out) of
               Inl err \<Rightarrow> Returns (Some err) (g\<lparr>importer := i\<rparr>)
             | Inr f \<Rightarrow>
                 (case declareDecls (g\<lparr>importer := i\<rparr>) (Decls f) of
                    None \<Rightarrow> Panics
                  | Some g2 \<Rightarrow> Returns None g2)))
   \<and> Name (outputFile g) = ''todo''
   \<and> fst (Write L fs g) = formatNode L fs (outputFile g)"
  by (simp add: header_def renderTemplate_def DeclareFromTemplate_def outputFile_def Write_def)

text \<open>The theorem of C10 on the template of C9.\<close>

theorem fixed_package_names_witness:
  "renderTemplate miniLibs tmplMyType dataMyType NewGenerator
     = (Inr (''package thriftrw'' @ [CHR 0x0A, CHR 0x0A] @ ''type myType int32''), NewGenerator)
   \<and> Name (outputFile (NewGenerator :: string Generator)) = ''todo''"
proof -
  have p: "templateParse miniLibs tmplMyType
      = Inr [TextNode ''type '', FieldNode ''Name'', TextNode '' int32'']"
    by code_simp
  have e: "runExec (templateExecute miniLibs [TextNode ''type '', FieldNode ''Name'', TextNode '' int32''] dataMyType)
        (importer (NewGenerator :: string Generator))
      = (Inr ''type myType int32'', importer (NewGenerator :: string Generator))"
    by (simp add: miniLibs_def miniTemplateExecute_def dataMyType_def)
  from fixed_package_names [of miniLibs tmplMyType _ dataMyType "NewGenerator :: string Generator"
      "''type myType int32''" "importer (NewGenerator :: string Generator)" "()"] p e
  show ?thesis by simp
qed

end
